theory Spec2Isabelle
  imports Complex_Main "HOL-Library.Word" "HOL-Library.Signed_Division"
    "HOL-Library.Monad_Syntax"
begin

unbundle bit_operations_syntax

section \<open>EPIC hop validation fields: a model of pkg/experimental/epic/epic.go\<close>

text \<open>
  The Go package computes and checks the EPIC hop validation field (a truncated CBC-MAC
  over a block-aligned encoding of packet fields) and creates and checks the relative EPIC
  timestamp. Every function of \<^verbatim>\<open>epic.go\<close> is translated below under its own name.
  What the package takes from elsewhere is modelled as follows.

  \<^item> \<^verbatim>\<open>time.Time\<close> is an instant, an integer count of nanoseconds; \<^verbatim>\<open>time.Duration\<close> is
    Go's \<^verbatim>\<open>int64\<close> count of nanoseconds. \<^verbatim>\<open>Time.Sub\<close> saturates at the smallest and largest
    \<^verbatim>\<open>Duration\<close>, as its documentation says; \<^verbatim>\<open>Time.Add\<close> and \<^verbatim>\<open>Time.After\<close> are exact.
    Monotonic clock readings and the bounds of Go's internal seconds counter are left out.
  \<^item> A byte slice is the list of its bytes up to its length (capacity equals length).
    A slice expression or an index out of range is a run-time panic: a function that can
    panic returns an option, and \<open>None\<close> is the panic.
  \<^item> A function that writes to the caller's buffer returns the buffer's contents after the
    call next to its result.
  \<^item> The AES block function is a parameter \<open>aes\<close>, from the key bytes and a 128-bit
    block to a 128-bit block. Nothing is assumed about it.
\<close>

subsection \<open>Errors\<close>

text \<open>
  The source builds its errors with \<^verbatim>\<open>serrors.New(message, context...)\<close>. Each
  constructor stands for one message and carries the context values of that call:
  \<^item> \<open>InvalidTimestampOrder input now\<close>: "provided input timestamp is in the future";
  \<^item> \<open>TimestampRangeExceeded epicTS\<close>: "diff between input and now >1d63min";
  \<^item> \<open>TimestampInFuture delta\<close>: "epic timestamp is in the future";
  \<^item> \<open>TimestampExpired delta\<close>: "epic timestamp expired";
  \<^item> \<open>MissingHeader\<close>: "SCION common+address header must not be nil";
  \<^item> \<open>KeyInitError\<close>: "Unable to initialize AES cipher";
  \<^item> \<open>InvalidInput\<close>: "invalid input";
  \<^item> \<open>MacMismatch hvf mac auth\<close>: "epic hop validation field verification failed".
\<close>

type_synonym byte = "8 word"
type_synonym Time = int
type_synonym Duration = int

datatype error =
    InvalidTimestampOrder Time Time
  | TimestampRangeExceeded Duration
  | TimestampInFuture Duration
  | TimestampExpired Duration
  | MissingHeader
  | KeyInitError
  | InvalidInput
  | MacMismatch "byte list" "byte list" "byte list"

subsection \<open>Constants\<close>

definition Microsecond :: Duration where
  "Microsecond = 1000"


definition AuthLen :: nat where
  "AuthLen = 16"



definition TimestampResolution :: Duration where
  "TimestampResolution = 21 * Microsecond"

definition MACBufferSize :: nat where
  "MACBufferSize = 48"

subsection \<open>The operations of package time that the source calls\<close>

definition maxDuration :: Duration where
  "maxDuration = 2 ^ 63 - 1"

definition minDuration :: Duration where
  "minDuration = - (2 ^ 63)"

definition After :: "Time \<Rightarrow> Time \<Rightarrow> bool" where
  "After t u = (u < t)"


text \<open>\<^verbatim>\<open>t.Sub(u)\<close>: the duration \<open>t - u\<close>, or the largest (smallest) duration when
  \<open>t - u\<close> does not fit.\<close>

definition Sub :: "Time \<Rightarrow> Time \<Rightarrow> Duration" where
  "Sub t u =
     (if t - u > maxDuration then maxDuration
      else if t - u < minDuration then minDuration
      else t - u)"

subsection \<open>Timestamps\<close>

text \<open>
  \<^verbatim>\<open>CreateTimestamp\<close>, lines 50 to 63. The division of durations is Go's integer
  division, which truncates towards zero (\<open>sdiv\<close>); the conversion \<^verbatim>\<open>uint32(epicTS)\<close>
  keeps the low 32 bits (\<open>word_of_int\<close>).
\<close>

definition CreateTimestamp :: "Time \<Rightarrow> Time \<Rightarrow> error + 32 word" where
  "CreateTimestamp input now =
     (if After input now then Inl (InvalidTimestampOrder input now)
      else
        let epicTS = Sub now input sdiv TimestampResolution - 1;
            epicTS = (if epicTS < 0 then 0 else epicTS)
        in if epicTS \<ge> 2 ^ 32 then Inl (TimestampRangeExceeded epicTS)
           else Inr (word_of_int epicTS))"


subsection \<open>Packet counters\<close>

text \<open>\<^verbatim>\<open>PktCounterFromCore\<close> and \<^verbatim>\<open>CoreFromPktCounter\<close>, lines 142 to 152.\<close>

definition PktCounterFromCore :: "8 word \<Rightarrow> 32 word \<Rightarrow> 32 word" where
  "PktCounterFromCore coreID coreCounter =
     push_bit 24 (ucast coreID) OR (coreCounter AND 0x00FFFFFF)"

definition CoreFromPktCounter :: "32 word \<Rightarrow> 8 word \<times> 32 word" where
  "CoreFromPktCounter counter =
     (let coreID = ucast (drop_bit 24 counter);
          coreCounter = counter AND 0x00FFFFFF
      in (coreID, coreCounter))"

subsection \<open>Bytes and slices\<close>

text \<open>\<^verbatim>\<open>binary.BigEndian.PutUint16\<close>, \<^verbatim>\<open>PutUint32\<close> and \<^verbatim>\<open>PutUint64\<close> store the most
  significant byte first.\<close>

definition be16 :: "16 word \<Rightarrow> byte list" where
  "be16 v = [ucast (drop_bit 8 v), ucast v]"

definition be32 :: "32 word \<Rightarrow> byte list" where
  "be32 v = [ucast (drop_bit 24 v), ucast (drop_bit 16 v), ucast (drop_bit 8 v), ucast v]"

definition be64 :: "64 word \<Rightarrow> byte list" where
  "be64 v =
     [ucast (drop_bit 56 v), ucast (drop_bit 48 v), ucast (drop_bit 40 v),
      ucast (drop_bit 32 v), ucast (drop_bit 24 v), ucast (drop_bit 16 v),
      ucast (drop_bit 8 v), ucast v]"

text \<open>
  \<open>put_bytes b off bs\<close> is a store of the bytes \<open>bs\<close> at the start of \<^verbatim>\<open>b[off:]\<close>, as
  \<^verbatim>\<open>b[0] = x\<close> and \<^verbatim>\<open>PutUintNN(b[off:], v)\<close> do: the slice expression panics when
  \<open>off\<close> exceeds the length, the store when the slice is too short, before a byte is
  written.
\<close>

definition put_bytes :: "byte list \<Rightarrow> nat \<Rightarrow> byte list \<Rightarrow> byte list option" where
  "put_bytes b off bs =
     (if off + length bs \<le> length b
      then Some (take off b @ bs @ drop (off + length bs) b)
      else None)"

text \<open>
  \<open>copy_bytes b lo hi src\<close> is \<^verbatim>\<open>copy(b[lo:hi], src)\<close>: the slice expression panics
  unless \<open>lo \<le> hi \<le> len(b)\<close>; \<^verbatim>\<open>copy\<close> moves as many bytes as the shorter of the
  two slices holds.
\<close>

definition copy_bytes :: "byte list \<Rightarrow> nat \<Rightarrow> nat \<Rightarrow> byte list \<Rightarrow> byte list option" where
  "copy_bytes b lo hi src =
     (if lo \<le> hi \<and> hi \<le> length b
      then (let n = min (hi - lo) (length src)
            in Some (take lo b @ take n src @ drop (lo + n) b))
      else None)"

text \<open>\<open>slice b lo hi\<close> is the slice expression \<^verbatim>\<open>b[lo:hi]\<close> on Go's signed \<^verbatim>\<open>int\<close>
  bounds.\<close>

definition slice :: "byte list \<Rightarrow> int \<Rightarrow> int \<Rightarrow> byte list option" where
  "slice b lo hi =
     (if 0 \<le> lo \<and> lo \<le> hi \<and> hi \<le> int (length b)
      then Some (take (nat (hi - lo)) (drop (nat lo) b))
      else None)"

definition zeroInitVector :: "byte list" where
  "zeroInitVector = replicate 16 0"

subsection \<open>The packet identifier and the SCION header\<close>

text \<open>
  Modelled from the spec: the packet identifier \<^verbatim>\<open>epic.PktID\<close>, its length
  \<^verbatim>\<open>epic.PktIDLen\<close> and its method \<^verbatim>\<open>SerializeTo\<close> (package slayers/path/epic) are not
  in the source file. The spec fixes the serialized length at 8 bytes; the two 32-bit
  fields, each stored big-endian into \<^verbatim>\<open>b[:4]\<close> and \<^verbatim>\<open>b[4:8]\<close>, are the ones of that
  package.
\<close>

record PktID =
  Timestamp :: "32 word"
  Counter :: "32 word"

definition PktIDLen :: nat where
  "PktIDLen = 8"

definition SerializeTo :: "PktID \<Rightarrow> byte list \<Rightarrow> nat \<Rightarrow> byte list option" where
  "SerializeTo i b off =
     do {
       b1 \<leftarrow> put_bytes b off (be32 (Timestamp i));
       put_bytes b1 (off + 4) (be32 (Counter i))
     }"

text \<open>
  Modelled from the spec: the header type \<^verbatim>\<open>slayers.SCION\<close> and \<^verbatim>\<open>addr.IABytes\<close> are
  not in the source file. Of the header the source reads the four fields below, the
  spec's source header fields: the address-length tag (one byte), the source endpoint
  identity (8 bytes), the raw source address and the payload length (16 bits). A
  \<^verbatim>\<open>nil\<close> pointer is \<open>None\<close>.
\<close>

record SCION =
  SrcAddrLen :: byte
  SrcIA :: "64 word"
  RawSrcAddr :: "byte list"
  PayloadLen :: "16 word"

definition IABytes :: nat where
  "IABytes = 8"

subsection \<open>The block cipher in CBC mode\<close>

text \<open>
  The AES block function is the parameter \<open>aes\<close>, from the key bytes and a 128-bit block
  to a 128-bit block. A block is read from and written to 16 bytes of a slice, most
  significant byte first.
\<close>

type_synonym block_cipher = "byte list \<Rightarrow> 128 word \<Rightarrow> 128 word"

definition block_of_bytes :: "byte list \<Rightarrow> 128 word" where
  "block_of_bytes bs = foldl (\<lambda>acc b. push_bit 8 acc OR ucast b) 0 bs"

definition bytes_of_block :: "128 word \<Rightarrow> byte list" where
  "bytes_of_block w = map (\<lambda>i. ucast (drop_bit (8 * (15 - i)) w)) [0..<16]"

text \<open>\<^verbatim>\<open>Block.Encrypt(dst, src)\<close> on the first 16 bytes of a slice.\<close>

definition Encrypt :: "(128 word \<Rightarrow> 128 word) \<Rightarrow> byte list \<Rightarrow> byte list" where
  "Encrypt blk src = bytes_of_block (blk (block_of_bytes (take 16 src)))"

text \<open>\<^verbatim>\<open>aes.NewCipher\<close> accepts keys of 16, 24 and 32 bytes (AES-128, AES-192 and
  AES-256) and returns a key-size error for every other length.\<close>

definition NewCipher :: "block_cipher \<Rightarrow> byte list \<Rightarrow> unit + (128 word \<Rightarrow> 128 word)" where
  "NewCipher aes key =
     (if length key = 16 \<or> length key = 24 \<or> length key = 32 then Inr (aes key)
      else Inl ())"

text \<open>\<^verbatim>\<open>cipher.BlockMode\<close> as \<^verbatim>\<open>cipher.NewCBCEncrypter\<close> builds it: the block function and
  the current initialization vector.\<close>

record BlockMode =
  blk :: "128 word \<Rightarrow> 128 word"
  iv :: "byte list"

definition BlockSize :: "BlockMode \<Rightarrow> int" where
  "BlockSize f = 16"

definition NewCBCEncrypter :: "(128 word \<Rightarrow> 128 word) \<Rightarrow> byte list \<Rightarrow> BlockMode" where
  "NewCBCEncrypter b v = \<lparr>blk = b, iv = v\<rparr>"

text \<open>\<^verbatim>\<open>subtle.XORBytes\<close> on two slices.\<close>

definition XORBytes :: "byte list \<Rightarrow> byte list \<Rightarrow> byte list" where
  "XORBytes x y = map2 (XOR) x y"

text \<open>
  The loop of \<^verbatim>\<open>CryptBlocks\<close> of the CBC encrypter: while bytes remain, the next 16
  bytes are xored with the vector and encrypted; the result is the next vector.
\<close>

fun cbc_loop :: "(128 word \<Rightarrow> 128 word) \<Rightarrow> byte list \<Rightarrow> byte list \<Rightarrow> byte list" where
  "cbc_loop b v src =
     (if src = [] then []
      else
        let c = Encrypt b (XORBytes (take 16 src) v)
        in c @ cbc_loop b c (drop 16 src))"

declare cbc_loop.simps [simp del]

text \<open>\<^verbatim>\<open>f.CryptBlocks(input, input)\<close>, in place: a panic when the input is not a whole
  number of blocks, else the ciphertext that replaces the input.\<close>

definition CryptBlocks :: "BlockMode \<Rightarrow> byte list \<Rightarrow> byte list option" where
  "CryptBlocks f src =
     (if int (length src) mod BlockSize f \<noteq> 0 then None
      else Some (cbc_loop (blk f) (iv f) src))"

text \<open>\<^verbatim>\<open>subtle.ConstantTimeCompare\<close>: 0 at once when the lengths differ, else the
  differences of all bytes are or-ed together and the result is 1 when none is set.\<close>

definition ConstantTimeCompare :: "byte list \<Rightarrow> byte list \<Rightarrow> int" where
  "ConstantTimeCompare x y =
     (if length x \<noteq> length y then 0
      else
        let v = foldl (\<lambda>v i. v OR (x ! i XOR y ! i)) (0 :: byte) [0..<length x]
        in if v = 0 then 1 else 0)"

subsection \<open>The MAC\<close>

text \<open>\<^verbatim>\<open>initEpicMac\<close>, lines 154 to 163.\<close>

definition initEpicMac :: "block_cipher \<Rightarrow> byte list \<Rightarrow> error + BlockMode" where
  "initEpicMac aes key =
     (case NewCipher aes key of
        Inl err \<Rightarrow> Inl KeyInitError
      | Inr block \<Rightarrow> Inr (NewCBCEncrypter block zeroInitVector))"

text \<open>
  \<^verbatim>\<open>prepareMacInput\<close>, lines 165 to 203. \<^verbatim>\<open>math.Ceil\<close> on \<^verbatim>\<open>float64\<close> is the ceiling
  on the reals here: the conversion of a length and the division by 16 are exact in
  floating point.
\<close>

definition prepareMacInput ::
    "PktID \<Rightarrow> SCION option \<Rightarrow> 32 word \<Rightarrow> byte list \<Rightarrow> ((error + nat) \<times> byte list) option" where
  "prepareMacInput pktID s timestamp inputBuffer =
     (case s of
        None \<Rightarrow> Some (Inl MissingHeader, inputBuffer)
      | Some h \<Rightarrow>
          let srcAddr = RawSrcAddr h;
              l = length srcAddr;
              nrBlocks = nat \<lceil>(23 + real l) / 16\<rceil>;
              inputLength = 16 * nrBlocks;
              offset = 0
          in do {
            b1 \<leftarrow> put_bytes inputBuffer 0 [SrcAddrLen h];
            let offset = offset + 1;
            b2 \<leftarrow> put_bytes b1 offset (be32 timestamp);
            let offset = offset + 4;
            b3 \<leftarrow> SerializeTo pktID b2 offset;
            let offset = offset + PktIDLen;
            b4 \<leftarrow> put_bytes b3 offset (be64 (SrcIA h));
            let offset = offset + IABytes;
            b5 \<leftarrow> copy_bytes b4 offset (length b4) srcAddr;
            let offset = offset + l;
            b6 \<leftarrow> put_bytes b5 offset (be16 (PayloadLen h));
            let offset = offset + 2;
            b7 \<leftarrow> copy_bytes b6 offset inputLength zeroInitVector;
            Some (Inr inputLength, b7)
          })"

text \<open>
  \<^verbatim>\<open>CalcMac\<close>, lines 93 to 114. The result is the returned pair (authenticator or
  error) and the contents of the caller's buffer after the call: a buffer shorter than
  \<^verbatim>\<open>MACBufferSize\<close> is replaced by a fresh one of 48 zero bytes and is itself left as
  it was.
\<close>

definition CalcMac ::
    "block_cipher \<Rightarrow> byte list \<Rightarrow> PktID \<Rightarrow> SCION option \<Rightarrow> 32 word \<Rightarrow> byte list
       \<Rightarrow> ((error + byte list) \<times> byte list) option" where
  "CalcMac aes auth pktID s timestamp buffer =
     (let fresh = length buffer < MACBufferSize;
          buf = (if fresh then replicate MACBufferSize 0 else buffer);
          caller = (\<lambda>b. if fresh then buffer else b)
      in case initEpicMac aes auth of
           Inl err \<Rightarrow> Some (Inl err, buffer)
         | Inr f \<Rightarrow>
             do {
               (r, buf1) \<leftarrow> prepareMacInput pktID s timestamp buf;
               case r of
                 Inl err \<Rightarrow> Some (Inl err, caller buf1)
               | Inr inputLength \<Rightarrow>
                   do {
                     input \<leftarrow> slice buf1 0 (int inputLength);
                     input' \<leftarrow> CryptBlocks f input;
                     let buf2 = input' @ drop inputLength buf1;
                     mac \<leftarrow> slice input' (int (length input') - BlockSize f)
                              (int (length input') - BlockSize f + 4);
                     Some (Inr mac, caller buf2)
                   }
             })"

text \<open>\<^verbatim>\<open>VerifyHVF\<close>, lines 121 to 138. \<open>Inr ()\<close> is the \<^verbatim>\<open>nil\<close> error.\<close>

definition VerifyHVF ::
    "block_cipher \<Rightarrow> byte list \<Rightarrow> PktID \<Rightarrow> SCION option \<Rightarrow> 32 word \<Rightarrow> byte list \<Rightarrow> byte list
       \<Rightarrow> ((error + unit) \<times> byte list) option" where
  "VerifyHVF aes auth pktID s timestamp hvf buffer =
     (if s = None \<or> length auth \<noteq> AuthLen then Some (Inl InvalidInput, buffer)
      else
        do {
          (r, buffer') \<leftarrow> CalcMac aes auth pktID s timestamp buffer;
          case r of
            Inl err \<Rightarrow> Some (Inl err, buffer')
          | Inr mac \<Rightarrow>
              if ConstantTimeCompare hvf mac = 0
              then Some (Inl (MacMismatch hvf mac auth), buffer')
              else Some (Inr (), buffer')
        })"

subsection \<open>The authenticator in the words of the specification\<close>

text \<open>
  The specification's layout of the MAC input (its section 4.3): the address-length
  tag, the relative timestamp, the serialized packet identifier, the source endpoint
  identity, the raw source address, the payload length, then zero bytes up to the next
  multiple of 16; the total length is \<open>16 * ceil ((23 + N) / 16)\<close>.
\<close>

definition spec_total_length :: "nat \<Rightarrow> nat" where
  "spec_total_length N = 16 * nat \<lceil>(23 + real N) / 16\<rceil>"

definition spec_fields :: "PktID \<Rightarrow> SCION \<Rightarrow> 32 word \<Rightarrow> byte list" where
  "spec_fields pktID h timestamp =
     [SrcAddrLen h] @ be32 timestamp @ (be32 (Timestamp pktID) @ be32 (Counter pktID))
       @ be64 (SrcIA h) @ RawSrcAddr h @ be16 (PayloadLen h)"

definition spec_mac_input :: "PktID \<Rightarrow> SCION \<Rightarrow> 32 word \<Rightarrow> byte list" where
  "spec_mac_input pktID h timestamp =
     spec_fields pktID h timestamp
       @ replicate (spec_total_length (length (RawSrcAddr h))
                      - length (spec_fields pktID h timestamp)) 0"

text \<open>
  The specification's MAC (its section 4.4): the input is cut into 16-byte blocks, each
  block is xored with the previous ciphertext block (the all-zero vector for the first)
  and encrypted, and the authenticator is the first 4 bytes of the last ciphertext block.
\<close>

fun blocks16 :: "byte list \<Rightarrow> byte list list" where
  "blocks16 bs = (if bs = [] then [] else take 16 bs # blocks16 (drop 16 bs))"

declare blocks16.simps [simp del]

fun cbc_encrypt :: "(128 word \<Rightarrow> 128 word) \<Rightarrow> byte list \<Rightarrow> byte list list \<Rightarrow> byte list list" where
  "cbc_encrypt E prev [] = []"
| "cbc_encrypt E prev (m # ms) =
     (let c = bytes_of_block (E (block_of_bytes (map2 (XOR) m prev)))
      in c # cbc_encrypt E c ms)"

definition spec_mac :: "block_cipher \<Rightarrow> byte list \<Rightarrow> PktID \<Rightarrow> SCION \<Rightarrow> 32 word \<Rightarrow> byte list" where
  "spec_mac aes key pktID h timestamp =
     take 4 (last (cbc_encrypt (aes key) (replicate 16 0)
                     (blocks16 (spec_mac_input pktID h timestamp))))"

section \<open>Auxiliary facts\<close>

subsection \<open>Time arithmetic\<close>

lemma Sub_nonneg: "u \<le> t \<Longrightarrow> Sub t u = min (t - u) maxDuration"
  by (auto simp: Sub_def minDuration_def maxDuration_def)

lemma sdiv_nonneg: "0 \<le> a \<Longrightarrow> 0 < b \<Longrightarrow> (a::int) sdiv b = a div b"
  by (auto simp: signed_divide_int_def sgn_if)

lemma units_sat:
  assumes "0 \<le> (d::int)"
  shows "max 0 (min d maxDuration div 21000 - 1) \<ge> 2 ^ 32 \<longleftrightarrow> max 0 (d div 21000 - 1) \<ge> 2 ^ 32"
    and "max 0 (d div 21000 - 1) < 2 ^ 32 \<Longrightarrow> min d maxDuration = d"
proof -
  show "max 0 (d div 21000 - 1) < 2 ^ 32 \<Longrightarrow> min d maxDuration = d"
    using assms by (simp add: maxDuration_def min_def) 
  show "max 0 (min d maxDuration div 21000 - 1) \<ge> 2 ^ 32 \<longleftrightarrow> max 0 (d div 21000 - 1) \<ge> 2 ^ 32"
  proof (cases "d \<le> maxDuration")
    case True then show ?thesis by (simp add: min_def)
  next
    case False
    then have "min d maxDuration = maxDuration" by simp
    moreover have "maxDuration div 21000 - 1 \<ge> 2 ^ 32" by (simp add: maxDuration_def)
    moreover have "d div 21000 \<ge> maxDuration div 21000" using False by (intro zdiv_mono1) auto
    ultimately show ?thesis by simp
  qed
qed

lemma CreateTimestamp_eq:
  assumes "\<not> now < input"
  shows "CreateTimestamp input now =
     (let e = max 0 (min (now - input) maxDuration div 21000 - 1) in
      if e \<ge> 2 ^ 32 then Inl (TimestampRangeExceeded e) else Inr (word_of_int e))"
proof -
  have "Sub now input = min (now - input) maxDuration" using assms by (simp add: Sub_nonneg)
  moreover have "0 \<le> min (now - input) maxDuration" using assms by (simp add: maxDuration_def)
  ultimately show ?thesis using assms
    by (simp add: CreateTimestamp_def After_def TimestampResolution_def Microsecond_def
        sdiv_nonneg Let_def max_def)
qed

subsection \<open>Packet counters\<close>

lemma mask24: "(0x00FFFFFF :: 32 word) = mask 24"
  by (simp add: mask_eq_exp_minus_1)

lemma unpack_pack: "CoreFromPktCounter (PktCounterFromCore coreID coreCounter) = (coreID, take_bit 24 coreCounter)"
  unfolding CoreFromPktCounter_def PktCounterFromCore_def Let_def mask24
  apply (simp add: prod_eq_iff)
  apply (rule conjI)
   apply (rule bit_word_eqI)
   apply (auto simp add: bit_simps)[1]
  apply (rule bit_word_eqI)
  apply (auto simp add: bit_simps)
  done

lemma take_bit_24_small: "coreCounter < 2 ^ 24 \<Longrightarrow> take_bit 24 (coreCounter :: 32 word) = coreCounter"
  by (simp add: less_mask_eq take_bit_eq_mask)

subsection \<open>The encoding of the MAC input\<close>

lemma nrBlocks_eq: "nat \<lceil>(23 + real l) / 16\<rceil> = (l + 38) div 16"
proof -
  have "(23 + real l) / 16 = of_int (int l + 23) / of_int 16" by simp
  then have "\<lceil>(23 + real l) / 16\<rceil> = - (- (int l + 23) div 16)"
    by (simp only: ceiling_divide_eq_div)
  then show ?thesis by linarith
qed

lemma spec_total_length_eq: "spec_total_length N = 16 * ((N + 38) div 16)"
  by (simp add: spec_total_length_def nrBlocks_eq)

lemma spec_total_length_bounds:
  "23 + N \<le> spec_total_length N" "spec_total_length N < 39 + N" "spec_total_length N mod 16 = 0"
  "32 \<le> spec_total_length N"
  unfolding spec_total_length_eq by presburger+

lemma put_bytes_pre:
  "length pre = k \<Longrightarrow> k + length bs \<le> length buf \<Longrightarrow>
   put_bytes (pre @ drop k buf) k bs = Some ((pre @ bs) @ drop (k + length bs) buf)"
  by (simp add: put_bytes_def add.commute)

lemma copy_bytes_pre:
  "length pre = k \<Longrightarrow> k \<le> hi \<Longrightarrow> hi \<le> length buf \<Longrightarrow> n = min (hi - k) (length src) \<Longrightarrow>
   copy_bytes (pre @ drop k buf) k hi src = Some ((pre @ take n src) @ drop (k + n) buf)"
  by (simp add: copy_bytes_def Let_def add.commute)

lemma length_be [simp]: "length (be16 a) = 2" "length (be32 b) = 4" "length (be64 c) = 8"
  by (simp_all add: be16_def be32_def be64_def)

lemma length_spec_fields: "length (spec_fields pktID h ts) = 23 + length (RawSrcAddr h)"
  by (simp add: spec_fields_def)

lemma length_spec_mac_input:
  "length (spec_mac_input pktID h ts) = spec_total_length (length (RawSrcAddr h))"
  using spec_total_length_bounds(1)[of "length (RawSrcAddr h)"]
  by (simp add: spec_mac_input_def length_spec_fields)

lemma prepareMacInput_Some:
  assumes len: "spec_total_length (length (RawSrcAddr h)) \<le> length buf"
  shows "prepareMacInput pktID (Some h) ts buf =
           Some (Inr (spec_total_length (length (RawSrcAddr h))),
                 spec_mac_input pktID h ts @ drop (spec_total_length (length (RawSrcAddr h))) buf)"
proof -
  define N where "N = length (RawSrcAddr h)"
  define T where "T = spec_total_length N"
  have T: "23 + N \<le> T" "T < 39 + N" "T \<le> length buf"
    using spec_total_length_bounds[of N] len by (simp_all add: T_def N_def)
  define p1 where "p1 = [SrcAddrLen h]"
  define p2 where "p2 = p1 @ be32 ts"
  define p3a where "p3a = p2 @ be32 (Timestamp pktID)"
  define p3 where "p3 = p3a @ be32 (Counter pktID)"
  define p4 where "p4 = p3 @ be64 (SrcIA h)"
  define p5 where "p5 = p4 @ RawSrcAddr h"
  define p6 where "p6 = p5 @ be16 (PayloadLen h)"
  define p7 where "p7 = p6 @ replicate (T - (23 + N)) 0"
  have l: "length p1 = 1" "length p2 = 5" "length p3a = 9" "length p3 = 13" "length p4 = 21"
    "length p5 = 21 + N" "length p6 = 23 + N"
    by (simp_all add: p1_def p2_def p3a_def p3_def p4_def p5_def p6_def N_def)
  have s1: "put_bytes buf 0 [SrcAddrLen h] = Some (p1 @ drop 1 buf)"
    using T by (simp add: put_bytes_def p1_def)
  have s2: "put_bytes (p1 @ drop 1 buf) 1 (be32 ts) = Some (p2 @ drop 5 buf)"
    using put_bytes_pre[of p1 1 "be32 ts" buf] T l by (simp add: p2_def)
  have s3a: "put_bytes (p2 @ drop 5 buf) 5 (be32 (Timestamp pktID)) = Some (p3a @ drop 9 buf)"
    using put_bytes_pre[of p2 5 "be32 (Timestamp pktID)" buf] T l by (simp add: p3a_def)
  have s3b: "put_bytes (p3a @ drop 9 buf) 9 (be32 (Counter pktID)) = Some (p3 @ drop 13 buf)"
    using put_bytes_pre[of p3a 9 "be32 (Counter pktID)" buf] T l by (simp add: p3_def)
  have s3: "SerializeTo pktID (p2 @ drop 5 buf) 5 = Some (p3 @ drop 13 buf)"
    by (simp add: SerializeTo_def s3a s3b)
  have s4: "put_bytes (p3 @ drop 13 buf) 13 (be64 (SrcIA h)) = Some (p4 @ drop 21 buf)"
    using put_bytes_pre[of p3 13 "be64 (SrcIA h)" buf] T l by (simp add: p4_def)
  have s5: "copy_bytes (p4 @ drop 21 buf) 21 (length (p4 @ drop 21 buf)) (RawSrcAddr h)
              = Some (p5 @ drop (21 + N) buf)"
    using copy_bytes_pre[of p4 21 "length buf" buf N "RawSrcAddr h"] T l
    by (simp add: p5_def N_def)
  have s6: "put_bytes (p5 @ drop (21 + N) buf) (21 + N) (be16 (PayloadLen h))
              = Some (p6 @ drop (23 + N) buf)"
    using put_bytes_pre[of p5 "21 + N" "be16 (PayloadLen h)" buf] T l by (simp add: p6_def add.commute)
  have s7: "copy_bytes (p6 @ drop (23 + N) buf) (23 + N) T zeroInitVector = Some (p7 @ drop T buf)"
    using copy_bytes_pre[of p6 "23 + N" T buf "T - (23 + N)" zeroInitVector] T l
    by (simp add: p7_def zeroInitVector_def min_def)
  have p7: "p7 = spec_mac_input pktID h ts"
    by (simp add: p7_def p6_def p5_def p4_def p3_def p3a_def p2_def p1_def spec_mac_input_def
        spec_fields_def T_def N_def)
  have "prepareMacInput pktID (Some h) ts buf = Some (Inr T, p7 @ drop T buf)"
    unfolding prepareMacInput_def
    using s1 s2 s3 s4 s5 s6 s7
    by (simp add: Let_def PktIDLen_def IABytes_def N_def[symmetric] T_def spec_total_length_def add.commute)
  then show ?thesis by (simp add: p7 T_def N_def)
qed






subsection \<open>Chained encryption\<close>

lemma length_bytes_of_block [simp]: "length (bytes_of_block w) = 16"
  by (simp add: bytes_of_block_def)

lemma length_Encrypt [simp]: "length (Encrypt b x) = 16"
  by (simp add: Encrypt_def)

lemma length_cbc_loop: "length src mod 16 = 0 \<Longrightarrow> length (cbc_loop b v src) = length src"
proof (induction b v src rule: cbc_loop.induct)
  case (1 b v src)
  show ?case
  proof (cases "src = []")
    case True then show ?thesis by (simp add: cbc_loop.simps)
  next
    case False
    with 1(2) have ge: "16 \<le> length src" by (cases "length src < 16") auto
    then have "length (drop 16 src) mod 16 = 0" using 1(2) by (simp add: le_mod_geq)
    then have "length (cbc_loop b (Encrypt b (XORBytes (take 16 src) v)) (drop 16 src)) = length src - 16"
      using 1(1)[OF False refl] by simp
    then show ?thesis using False ge by (subst cbc_loop.simps) (simp add: Let_def)
  qed
qed

lemma cbc_loop_blocks: "cbc_loop b v src = concat (cbc_encrypt b v (blocks16 src))"
proof (induction b v src rule: cbc_loop.induct)
  case (1 b v src)
  show ?case
  proof (cases "src = []")
    case True then show ?thesis by (simp add: cbc_loop.simps blocks16.simps)
  next
    case False
    have e: "Encrypt b (XORBytes (take 16 src) v) = bytes_of_block (b (block_of_bytes (map2 (XOR) (take 16 src) v)))"
      by (simp add: Encrypt_def XORBytes_def)
    show ?thesis
      using False 1[OF False refl]
      by (subst cbc_loop.simps, subst blocks16.simps) (simp add: Let_def e)
  qed
qed

lemma cbc_encrypt_blocks: "length (cbc_encrypt E p ms) = length ms \<and> (\<forall>c \<in> set (cbc_encrypt E p ms). length c = 16)"
  by (induction ms arbitrary: p) (auto simp: Let_def)

lemma last_concat16:
  "cs \<noteq> [] \<Longrightarrow> \<forall>c \<in> set cs. length c = 16 \<Longrightarrow> drop (length (concat cs) - 16) (concat cs) = last cs"
proof (induction cs)
  case Nil then show ?case by simp
next
  case (Cons c cs)
  show ?case
  proof (cases "cs = []")
    case True with Cons.prems show ?thesis by simp
  next
    case False
    then have "16 \<le> length (concat cs)" using Cons.prems
      by (cases cs) auto
    then show ?thesis using Cons False by simp
  qed
qed

lemma blocks16_nonempty: "bs \<noteq> [] \<Longrightarrow> blocks16 bs \<noteq> []"
  by (subst blocks16.simps) simp

lemma mac_slice_eq:
  assumes "src \<noteq> []"
  shows "drop (length (cbc_loop b v src) - 16) (cbc_loop b v src) = last (cbc_encrypt b v (blocks16 src))"
proof -
  have "cbc_encrypt b v (blocks16 src) \<noteq> []"
    using cbc_encrypt_blocks[of b v "blocks16 src"] blocks16_nonempty[OF assms] by auto
  then show ?thesis
    unfolding cbc_loop_blocks using cbc_encrypt_blocks[of b v "blocks16 src"]
    by (intro last_concat16) auto
qed

subsection \<open>The outcomes of CalcMac\<close>

lemma initEpicMac_ok:
  "length key = 16 \<or> length key = 24 \<or> length key = 32 \<Longrightarrow>
   initEpicMac aes key = Inr \<lparr>blk = aes key, iv = zeroInitVector\<rparr>"
  by (auto simp: initEpicMac_def NewCipher_def NewCBCEncrypter_def)




lemma spec_mac_cbc_loop:
  "spec_mac aes key pktID h ts =
     take 4 (drop (spec_total_length (length (RawSrcAddr h)) - 16)
               (cbc_loop (aes key) zeroInitVector (spec_mac_input pktID h ts)))"
proof -
  let ?src = "spec_mac_input pktID h ts"
  have ne: "?src \<noteq> []"
    using length_spec_mac_input[of pktID h ts] spec_total_length_bounds(4)[of "length (RawSrcAddr h)"]
    by auto
  have "length (cbc_loop (aes key) zeroInitVector ?src) = spec_total_length (length (RawSrcAddr h))"
    using length_cbc_loop[of ?src "aes key" zeroInitVector]
    by (simp add: length_spec_mac_input spec_total_length_bounds(3))
  then show ?thesis
    using mac_slice_eq[OF ne, of "aes key" zeroInitVector]
    by (simp add: spec_mac_def zeroInitVector_def)
qed

lemma CalcMac_ok:
  assumes key: "length key = 16 \<or> length key = 24 \<or> length key = 32"
    and fit: "spec_total_length (length (RawSrcAddr h)) \<le> max MACBufferSize (length buffer)"
  shows "CalcMac aes key pktID (Some h) ts buffer =
     Some (Inr (spec_mac aes key pktID h ts),
           if length buffer < MACBufferSize then buffer
           else cbc_loop (aes key) zeroInitVector (spec_mac_input pktID h ts)
                  @ drop (spec_total_length (length (RawSrcAddr h))) buffer)"
proof -
  define T where "T = spec_total_length (length (RawSrcAddr h))"
  define buf where "buf = (if length buffer < MACBufferSize then replicate MACBufferSize 0 else buffer)"
  define src where "src = spec_mac_input pktID h ts"
  define c where "c = cbc_loop (aes key) zeroInitVector src"
  have T: "T \<le> length buf" "T mod 16 = 0" "32 \<le> T"
    using fit spec_total_length_bounds[of "length (RawSrcAddr h)"]
    by (auto simp: T_def buf_def max_def split: if_splits)
  have lsrc: "length src = T" by (simp add: src_def T_def length_spec_mac_input)
  have lc: "length c = T" using length_cbc_loop[of src "aes key" zeroInitVector] T lsrc by (simp add: c_def)
  have p: "prepareMacInput pktID (Some h) ts buf = Some (Inr T, src @ drop T buf)"
    using prepareMacInput_Some[of h buf pktID ts] T by (simp add: T_def src_def)
  have s1: "slice (src @ drop T buf) 0 (int T) = Some src"
    using lsrc by (simp add: slice_def)
  have s2: "CryptBlocks \<lparr>blk = aes key, iv = zeroInitVector\<rparr> src = Some c"
  proof -
    have "int (length src) mod 16 = 0" using T(2) lsrc by presburger
    then show ?thesis by (simp add: CryptBlocks_def BlockSize_def c_def)
  qed
  have s3: "slice c (int (length c) - 16) (int (length c) - 16 + 4) = Some (take 4 (drop (T - 16) c))"
    using lc T by (simp add: slice_def nat_diff_distrib)
  have m: "take 4 (drop (T - 16) c) = spec_mac aes key pktID h ts"
    by (simp add: spec_mac_cbc_loop c_def src_def T_def)
  show ?thesis
    unfolding CalcMac_def Let_def initEpicMac_ok[OF key] buf_def[symmetric]
    using p s1 s2 s3 lsrc
    by (simp add: BlockSize_def m c_def[symmetric] T_def[symmetric] src_def[symmetric] buf_def)
qed


lemma fits25: "N \<le> 25 \<Longrightarrow> spec_total_length N \<le> max MACBufferSize n"
  unfolding spec_total_length_eq MACBufferSize_def by presburger


subsection \<open>The outcomes of VerifyHVF\<close>

lemma foldl_or_zero:
  "foldl (\<lambda>v i. v OR f i) (a :: byte) is = 0 \<longleftrightarrow> a = 0 \<and> (\<forall>i \<in> set is. f i = 0)"
  by (induction "is" arbitrary: a) (auto simp: or_eq_0_iff)

lemma xor_byte_zero: "(a :: byte) XOR b = 0 \<longleftrightarrow> a = b"
proof
  assume h: "a XOR b = 0"
  have "bit a n = bit b n" for n
  proof -
    have "bit (a XOR b) n = bit (0 :: byte) n" by (simp only: h)
    then show ?thesis by (simp add: bit_xor_iff)
  qed
  then show "a = b" by (rule bit_eqI)
next
  assume "a = b" then show "a XOR b = 0" by simp
qed

lemma ConstantTimeCompare_eq: "ConstantTimeCompare x y = (if x = y then 1 else 0)"
proof (cases "length x = length y")
  case False then show ?thesis by (auto simp: ConstantTimeCompare_def)
next
  case True
  have "(\<forall>i \<in> set [0..<length x]. x ! i XOR y ! i = 0) \<longleftrightarrow> (\<forall>i < length x. x ! i = y ! i)"
    by (auto simp: xor_byte_zero)
  also have "\<dots> \<longleftrightarrow> x = y"
    using True list_eq_iff_nth_eq[of x y] by simp
  finally have "(\<forall>i \<in> set [0..<length x]. x ! i XOR y ! i = 0) \<longleftrightarrow> x = y" .
  then show ?thesis using True
    by (simp add: ConstantTimeCompare_def Let_def foldl_or_zero del: set_upt)
qed


lemma VerifyHVF_ok:
  assumes key: "length auth = 16"
    and fit: "spec_total_length (length (RawSrcAddr h)) \<le> max MACBufferSize (length buffer)"
  shows "VerifyHVF aes auth pktID (Some h) ts hvf buffer =
     Some (if hvf = spec_mac aes auth pktID h ts then Inr ()
           else Inl (MacMismatch hvf (spec_mac aes auth pktID h ts) auth),
           if length buffer < MACBufferSize then buffer
           else cbc_loop (aes auth) zeroInitVector (spec_mac_input pktID h ts)
                  @ drop (spec_total_length (length (RawSrcAddr h))) buffer)"
  using key CalcMac_ok[OF _ fit, of auth aes pktID ts]
  by (simp add: VerifyHVF_def AuthLen_def ConstantTimeCompare_eq)


lemma fits_valid: "N \<in> {4, 8, 12, 16} \<Longrightarrow> spec_total_length N \<le> max MACBufferSize n"
  by (rule fits25) auto



section \<open>The claims\<close>

text \<open>
  Claim C1 (round trip). For every 16-byte key \<open>auth\<close>, every packet identifier, every
  header that is not \<^verbatim>\<open>nil\<close> and whose raw source address has 4, 8, 12 or 16 bytes, every
  relative timestamp and any scratch buffers, \<^verbatim>\<open>CalcMac\<close> returns an authenticator, and
  \<^verbatim>\<open>VerifyHVF\<close> applied to that authenticator with the same key, identifier, header and
  timestamp returns \<^verbatim>\<open>nil\<close>, whatever buffer it is given.
\<close>

theorem VerifyHVF_CalcMac_roundtrip:
  assumes "length auth = 16" and "length (RawSrcAddr s) \<in> {4, 8, 12, 16}"
  shows "\<exists>mac b. CalcMac aes auth pktID (Some s) timestamp buffer = Some (Inr mac, b) \<and>
            (\<forall>buffer'. \<exists>b'. VerifyHVF aes auth pktID (Some s) timestamp mac buffer' = Some (Inr (), b'))"
proof -
  have fit: "spec_total_length (length (RawSrcAddr s)) \<le> max MACBufferSize n" for n
    using assms(2) by (rule fits_valid)
  have "CalcMac aes auth pktID (Some s) timestamp buffer =
          Some (Inr (spec_mac aes auth pktID s timestamp),
                if length buffer < MACBufferSize then buffer
                else cbc_loop (aes auth) zeroInitVector (spec_mac_input pktID s timestamp)
                       @ drop (spec_total_length (length (RawSrcAddr s))) buffer)"
    using assms(1) fit by (intro CalcMac_ok) auto
  moreover have "\<exists>b'. VerifyHVF aes auth pktID (Some s) timestamp (spec_mac aes auth pktID s timestamp) buffer'
                  = Some (Inr (), b')" for buffer'
    using VerifyHVF_ok[OF assms(1) fit, of aes pktID timestamp "spec_mac aes auth pktID s timestamp" buffer']
    by simp
  ultimately show ?thesis by blast
qed

theorem VerifyHVF_CalcMac_roundtrip_witness:
  "\<exists>mac b. CalcMac (\<lambda>key x. x + 1) (replicate 16 0) \<lparr>Timestamp = 1, Counter = 2\<rparr>
              (Some \<lparr>SrcAddrLen = 0, SrcIA = 5, RawSrcAddr = [10, 0, 0, 1], PayloadLen = 100\<rparr>) 7 []
              = Some (Inr mac, b) \<and>
            (\<forall>buffer'. \<exists>b'. VerifyHVF (\<lambda>key x. x + 1) (replicate 16 0) \<lparr>Timestamp = 1, Counter = 2\<rparr>
              (Some \<lparr>SrcAddrLen = 0, SrcIA = 5, RawSrcAddr = [10, 0, 0, 1], PayloadLen = 100\<rparr>) 7 mac buffer'
              = Some (Inr (), b'))"
proof -
  have k: "length (replicate 16 (0 :: byte)) = 16" by simp
  have n: "length (RawSrcAddr \<lparr>SrcAddrLen = 0, SrcIA = 5, RawSrcAddr = [10, 0, 0, 1], PayloadLen = 100\<rparr>)
             \<in> {4, 8, 12, 16}" by simp
  show ?thesis by (rule VerifyHVF_CalcMac_roundtrip [OF k n])
qed

text \<open>
  Claim C2 (MAC input encoding). For every header that is not \<^verbatim>\<open>nil\<close> and whose raw
  source address has \<open>N\<close> bytes, \<open>N\<close> one of 4, 8, 12 and 16, and for a buffer of at least
  \<^verbatim>\<open>MACBufferSize\<close> bytes (what \<^verbatim>\<open>CalcMac\<close> always passes), \<^verbatim>\<open>prepareMacInput\<close>
  returns the length \<open>16 * ceil ((23 + N) / 16)\<close> and leaves in the buffer, from its start
  and without gaps: the address-length byte, the timestamp in 4 bytes, the packet
  identifier in 8 bytes, the source identity in 8 bytes, the \<open>N\<close> address bytes, the
  payload length in 2 bytes, all integers with the most significant byte first, then
  zero bytes up to the returned length. The bytes of the buffer beyond that length are
  as they were.
\<close>

theorem prepareMacInput_layout:
  assumes "length (RawSrcAddr s) \<in> {4, 8, 12, 16}" and "MACBufferSize \<le> length inputBuffer"
  shows "let N = length (RawSrcAddr s); total = 16 * nat \<lceil>(23 + real N) / 16\<rceil> in
         prepareMacInput pktID (Some s) timestamp inputBuffer =
           Some (Inr total,
                 [SrcAddrLen s] @ be32 timestamp @ (be32 (Timestamp pktID) @ be32 (Counter pktID))
                   @ be64 (SrcIA s) @ RawSrcAddr s @ be16 (PayloadLen s)
                   @ replicate (total - (23 + N)) 0 @ drop total inputBuffer)"
proof -
  have "spec_total_length (length (RawSrcAddr s)) \<le> length inputBuffer"
    using fits_valid[OF assms(1), of 0] assms(2) by (simp add: MACBufferSize_def)
  from prepareMacInput_Some[OF this, of pktID timestamp] show ?thesis
    by (simp add: Let_def spec_mac_input_def spec_fields_def spec_total_length_def)
qed

theorem prepareMacInput_layout_witness:
  "prepareMacInput \<lparr>Timestamp = 1, Counter = 2\<rparr>
     (Some \<lparr>SrcAddrLen = 0, SrcIA = 0x0102030405060708, RawSrcAddr = [10, 0, 0, 1], PayloadLen = 100\<rparr>)
     7 (replicate 48 255) =
   Some (Inr 32,
     [0, 0, 0, 0, 7, 0, 0, 0, 1, 0, 0, 0, 2, 1, 2, 3, 4, 5, 6, 7, 8, 10, 0, 0, 1, 0, 100,
      0, 0, 0, 0, 0, 255, 255, 255, 255, 255, 255, 255, 255, 255, 255, 255, 255, 255, 255, 255, 255])"
proof -
  have n: "length (RawSrcAddr \<lparr>SrcAddrLen = 0, SrcIA = 0x0102030405060708, RawSrcAddr = [10, 0, 0, 1],
             PayloadLen = 100\<rparr>) \<in> {4, 8, 12, 16}" by simp
  have b: "MACBufferSize \<le> length (replicate 48 (255 :: byte))" by (simp add: MACBufferSize_def)
  show ?thesis
    unfolding prepareMacInput_layout [OF n b, of "\<lparr>Timestamp = 1, Counter = 2\<rparr>" 7, unfolded Let_def]
    by code_simp
qed







text \<open>
  Claim C5 (timestamp creation). \<^verbatim>\<open>CreateTimestamp\<close> fails with
  \<open>InvalidTimestampOrder\<close> exactly when \<open>input\<close> is strictly after \<open>now\<close>. Otherwise,
  with \<open>e\<close> the floor of \<open>(now - input) / 21 microseconds\<close> minus 1, and 0 when that is
  negative, it fails with \<open>TimestampRangeExceeded\<close> exactly when \<open>e \<ge> 2^32\<close> and returns
  \<open>e\<close> otherwise; for equal instants it returns 0. The saturation of \<^verbatim>\<open>Time.Sub\<close>
  does not show: a saturated difference is far beyond the range.
\<close>

theorem CreateTimestamp_contract:
 "((\<exists>a b. CreateTimestamp input now = Inl (InvalidTimestampOrder a b)) \<longleftrightarrow> now < input) \<and>
  (\<not> now < input \<longrightarrow>
     (let e = max 0 ((now - input) div TimestampResolution - 1) in
        ((\<exists>x. CreateTimestamp input now = Inl (TimestampRangeExceeded x)) \<longleftrightarrow> e \<ge> 2 ^ 32) \<and>
        (e < 2 ^ 32 \<longrightarrow>
           CreateTimestamp input now = Inr (word_of_int e) \<and> uint (word_of_int e :: 32 word) = e))) \<and>
  CreateTimestamp t t = Inr 0"
proof (intro conjI impI)
  show "(\<exists>a b. CreateTimestamp input now = Inl (InvalidTimestampOrder a b)) \<longleftrightarrow> now < input"
  proof (cases "now < input")
    case True then show ?thesis by (simp add: CreateTimestamp_def After_def)
  next
    case False then show ?thesis by (simp add: CreateTimestamp_eq Let_def)
  qed
next
  assume h: "\<not> now < input"
  then have d: "0 \<le> now - input" by simp
  let ?e = "max 0 ((now - input) div 21000 - 1)"
  let ?s = "max 0 (min (now - input) maxDuration div 21000 - 1)"
  have "(\<exists>x. CreateTimestamp input now = Inl (TimestampRangeExceeded x)) \<longleftrightarrow> ?s \<ge> 2 ^ 32"
    unfolding CreateTimestamp_eq[OF h] Let_def by (cases "?s \<ge> 2 ^ 32") simp_all
  then have r1: "((\<exists>x. CreateTimestamp input now = Inl (TimestampRangeExceeded x)) \<longleftrightarrow> ?e \<ge> 2 ^ 32)"
    unfolding units_sat(1)[OF d] .
  have r2: "CreateTimestamp input now = Inr (word_of_int ?e) \<and> uint (word_of_int ?e :: 32 word) = ?e"
    if "?e < 2 ^ 32"
  proof -
    have "min (now - input) maxDuration = now - input" using units_sat(2)[OF d that] .
    then have "CreateTimestamp input now = Inr (word_of_int ?e)" using that
      by (simp add: CreateTimestamp_eq[OF h] Let_def)
    moreover have "0 \<le> ?e" by simp
    then have "uint (word_of_int ?e :: 32 word) = ?e" using that
      by (simp add: uint_word_of_int take_bit_int_eq_self del: max.bounded_iff)
    ultimately show ?thesis by simp
  qed
  show "let e = max 0 ((now - input) div TimestampResolution - 1) in
        ((\<exists>x. CreateTimestamp input now = Inl (TimestampRangeExceeded x)) \<longleftrightarrow> e \<ge> 2 ^ 32) \<and>
        (e < 2 ^ 32 \<longrightarrow>
           CreateTimestamp input now = Inr (word_of_int e) \<and> uint (word_of_int e :: 32 word) = e)"
    unfolding Let_def TimestampResolution_def Microsecond_def using r1 r2 by simp
next
  show "CreateTimestamp t t = Inr 0"
    by (simp add: CreateTimestamp_eq Let_def)
qed

theorem CreateTimestamp_contract_witness:
  "CreateTimestamp 0 1000000 = Inr 46 \<and>
   (\<exists>a b. CreateTimestamp 1 0 = Inl (InvalidTimestampOrder a b)) \<and>
   (\<exists>x. CreateTimestamp 0 90194313237000 = Inl (TimestampRangeExceeded x)) \<and>
   CreateTimestamp 0 90194313236999 = Inr 4294967295"
  using CreateTimestamp_contract [of 0 1000000] CreateTimestamp_contract [of 1 0]
    CreateTimestamp_contract [of 0 90194313237000] CreateTimestamp_contract [of 0 90194313236999]
  by (simp add: TimestampResolution_def Microsecond_def Let_def)

text \<open>
  Claim C6 (input validation of the verification). When the header is \<^verbatim>\<open>nil\<close> or the
  key does not have exactly 16 bytes, \<^verbatim>\<open>VerifyHVF\<close> returns the \<open>InvalidInput\<close> error
  before any MAC is computed: whatever the cipher and the claimed field are, the result
  is that error and the buffer is as it was.
\<close>

theorem VerifyHVF_invalid_input:
  assumes "s = None \<or> length auth \<noteq> 16"
  shows "VerifyHVF aes auth pktID s timestamp hvf buffer = Some (Inl InvalidInput, buffer)"
  using assms by (auto simp: VerifyHVF_def AuthLen_def)

theorem VerifyHVF_invalid_input_witness:
  "VerifyHVF (\<lambda>key x. x + 1) (replicate 16 0) \<lparr>Timestamp = 1, Counter = 2\<rparr> None 7 [1, 2, 3, 4]
     (replicate 48 9) = Some (Inl InvalidInput, replicate 48 9) \<and>
   VerifyHVF (\<lambda>key x. x + 1) (replicate 15 0) \<lparr>Timestamp = 1, Counter = 2\<rparr>
     (Some \<lparr>SrcAddrLen = 0, SrcIA = 5, RawSrcAddr = [10, 0, 0, 1], PayloadLen = 100\<rparr>) 7 [1, 2, 3, 4]
     (replicate 48 9) = Some (Inl InvalidInput, replicate 48 9)"
proof -
  have a: "None = (None :: SCION option) \<or> length (replicate 16 (0 :: byte)) \<noteq> 16" by simp
  have b: "Some \<lparr>SrcAddrLen = 0, SrcIA = 5, RawSrcAddr = [10, 0, 0, 1], PayloadLen = 100\<rparr> = None
             \<or> length (replicate 15 (0 :: byte)) \<noteq> 16" by simp
  show ?thesis
    by (intro conjI VerifyHVF_invalid_input [OF a] VerifyHVF_invalid_input [OF b])
qed




text \<open>
  Claim C8 (packet counter). For every core identifier and every core counter below
  \<open>2^24\<close>, unpacking the packed counter gives both back. For every core counter the
  bits above bit 23 are dropped by packing: the packed value is that of the counter's
  low 24 bits, and unpacking returns those. Both functions are total and have no error
  result.
\<close>

theorem PktCounter_roundtrip:
  "(coreCounter < 2 ^ 24 \<longrightarrow>
      CoreFromPktCounter (PktCounterFromCore coreID coreCounter) = (coreID, coreCounter)) \<and>
   CoreFromPktCounter (PktCounterFromCore coreID coreCounter) = (coreID, coreCounter AND 0x00FFFFFF) \<and>
   PktCounterFromCore coreID coreCounter = PktCounterFromCore coreID (coreCounter AND 0x00FFFFFF)"
proof -
  have m: "coreCounter AND 0x00FFFFFF = take_bit 24 coreCounter"
    by (simp add: mask24 take_bit_eq_mask)
  show ?thesis
    by (simp add: unpack_pack m take_bit_24_small) (simp add: PktCounterFromCore_def mask24 flip: take_bit_eq_mask)
qed

theorem PktCounter_roundtrip_witness:
  "CoreFromPktCounter (PktCounterFromCore 255 0xFFFFFF) = (255, 0xFFFFFF) \<and>
   CoreFromPktCounter (PktCounterFromCore 7 0x1000001) = (7, 1)"
proof -
  have a: "CoreFromPktCounter (PktCounterFromCore 255 0xFFFFFF) = (255, 0xFFFFFF)"
    using PktCounter_roundtrip [of "0xFFFFFF" 255] by simp
  have b: "CoreFromPktCounter (PktCounterFromCore 7 0x1000001) = (7, 1)"
    using PktCounter_roundtrip [of "0x1000001" 7, THEN conjunct2, THEN conjunct1] by simp
  show ?thesis by (intro conjI a b)
qed







end
